theory Spec2Isabelle
  imports Complex_Main "HOL-Library.Sublist"
begin

section \<open>Python values, exceptions and string primitives\<close>

text \<open>
  A Python \<open>str\<close> is a sequence of Unicode code points; it is modelled as the list of
  these numbers.  \<open>py\<close> turns the text of a literal into that list.  A Python
  \<open>float\<close> is modelled as a real number: rounding is not modelled.
\<close>

type_synonym pystr = "nat list"

abbreviation py :: "string \<Rightarrow> pystr" where
  "py s \<equiv> map of_char s"

abbreviation comma :: nat where
  "comma \<equiv> of_char (CHR 0x2C)"

text \<open>
  A value that is not a \<open>str\<close> (\<open>None\<close>, a float such as the NaN that pandas gives for
  an empty cell, a number, ...) is \<open>Other x\<close>; \<open>isinstance(v, str)\<close> holds exactly for
  \<open>Str s\<close>.
\<close>

datatype 'o pyval = Str pystr | Other 'o

text \<open>
  The exceptions that occur.  All of them derive from \<open>Exception\<close> except
  \<open>KeyboardInterrupt\<close>, which derives from \<open>BaseException\<close> only, so that
  \<open>except Exception\<close> does not catch it.
\<close>

datatype py_error =
    IndexError | KeyError | ZeroDivisionError | OverflowError | OSError
  | UnpicklingError | UnicodeDecodeError | GeocoderError | KeyboardInterrupt

definition is_Exception :: "py_error \<Rightarrow> bool" where
  "is_Exception e = (e \<noteq> KeyboardInterrupt)"

text \<open>\<open>xs[0]\<close>: raises \<open>IndexError\<close> on the empty list.\<close>

definition index0 :: "'a list \<Rightarrow> py_error + 'a" where
  "index0 xs = (case xs of [] \<Rightarrow> Inl IndexError | x # _ \<Rightarrow> Inr x)"

text \<open>\<open>sub in s\<close> for strings: \<open>sub\<close> occurs in \<open>s\<close> as a contiguous substring.\<close>

fun contains :: "pystr \<Rightarrow> pystr \<Rightarrow> bool" where
  "contains sub [] = (sub = [])"
| "contains sub (c # cs) = (prefix sub (c # cs) \<or> contains sub cs)"

text \<open>
  \<open>s.replace(old, new)\<close>: the non-overlapping occurrences of \<open>old\<close> are replaced in one pass
  from left to right; the scan continues behind each replaced occurrence and never looks at
  the text it has produced.  For the empty \<open>old\<close>, \<open>new\<close> is put before every character
  and at the end.
\<close>

fun replace_from :: "pystr \<Rightarrow> pystr \<Rightarrow> pystr \<Rightarrow> pystr" where
  "replace_from [] old new = []"
| "replace_from (c # cs) old new =
     (if prefix old (c # cs) then new @ replace_from (drop (length old - 1) cs) old new
      else c # replace_from cs old new)"

definition replace :: "pystr \<Rightarrow> pystr \<Rightarrow> pystr \<Rightarrow> pystr" where
  "replace s old new =
     (if old = [] then new @ concat (map (\<lambda>c. c # new) s) else replace_from s old new)"

text \<open>\<open>s.split(sep)\<close> for a separator of one character; the result is never empty.\<close>

fun split :: "pystr \<Rightarrow> nat \<Rightarrow> pystr list" where
  "split [] sep = [[]]"
| "split (c # cs) sep =
     (if c = sep then [] # split cs sep
      else (case split cs sep of [] \<Rightarrow> [[c]] | p # ps \<Rightarrow> (c # p) # ps))"

text \<open>
  \<open>str.isspace\<close> on one character: tab, line feed, vertical tab, form feed, carriage
  return, the separators 28 to 31, space, NEL (133), the no-break space (160), the Ogham
  space mark (5760), the spaces U+2000 to U+200A, the line and paragraph separators, the
  narrow no-break space (8239), the medium mathematical space (8287) and the ideographic
  space (12288).
\<close>

definition isspace :: "nat \<Rightarrow> bool" where
  "isspace c =
     (c \<in> {9, 10, 11, 12, 13, 28, 29, 30, 31, 32, 133, 160, 5760} \<union> {8192..8202} \<union>
          {8232, 8233, 8239, 8287, 12288})"

text \<open>\<open>s.strip()\<close> and \<open>s.strip(chars)\<close>: drop the matching characters at both ends.\<close>

definition strip_where :: "(nat \<Rightarrow> bool) \<Rightarrow> pystr \<Rightarrow> pystr" where
  "strip_where P s = dropWhile P (rev (dropWhile P (rev s)))"

definition strip :: "pystr \<Rightarrow> pystr" where
  "strip s = strip_where isspace s"

definition strip_chars :: "pystr \<Rightarrow> pystr \<Rightarrow> pystr" where
  "strip_chars s chars = strip_where (\<lambda>c. c \<in> set chars) s"


text \<open>
  \<open>sep.join(parts)\<close>: the parts in order, with \<open>sep\<close> between each two neighbours.  The
  texts \<open>sep.join(parts)\<close> are those that arise from \<open>''.join(parts)\<close> by putting a copy
  of \<open>sep\<close> at some of its positions.
\<close>

fun join :: "pystr \<Rightarrow> pystr list \<Rightarrow> pystr" where
  "join sep [] = []"
| "join sep [p] = p"
| "join sep (p # q # ps) = p @ sep @ join sep (q # ps)"


section \<open>The address normaliser\<close>

definition marker_jumia :: pystr where
  "marker_jumia = py ''Jumia- Pargo- Pickup station -''"

definition marker_point :: pystr where
  "marker_point = py ''Point 192 -''"

text \<open>\<open>GeocodingService.clean_address\<close> (services.py).\<close>

definition clean_address :: "'o pyval \<Rightarrow> py_error + pystr" where
  "clean_address address =
     (case address of
        Other _ \<Rightarrow> Inr []
      | Str s \<Rightarrow>
          (let cleaned = replace s marker_jumia [];
               cleaned = replace cleaned marker_point []
           in case index0 (split cleaned comma) of
                Inl e \<Rightarrow> Inl e
              | Inr part \<Rightarrow> Inr (strip part)))"

text \<open>
  \<open>clean_address\<close> of the legacy script (main_legacy.py): the same three steps on a string;
  any other value is returned as it came.
\<close>

definition legacy_clean_address :: "'o pyval \<Rightarrow> py_error + 'o pyval" where
  "legacy_clean_address address =
     (case address of
        Str s \<Rightarrow>
          (let address1 = replace s marker_jumia [];
               address2 = replace address1 marker_point []
           in case index0 (split address2 comma) of
                Inl e \<Rightarrow> Inl e
              | Inr part \<Rightarrow> Inr (Str (strip part)))
      | Other x \<Rightarrow> Inr (Other x))"

text \<open>The cleaned text contains neither boilerplate marker.\<close>

definition marker_free :: "pystr \<Rightarrow> bool" where
  "marker_free s = (\<not> contains marker_jumia s \<and> \<not> contains marker_point s)"


section \<open>Numbers\<close>

text \<open>
  \<open>a / b\<close> on Python integers: \<open>ZeroDivisionError\<close> for a zero divisor, \<open>OverflowError\<close>
  when the quotient is too large for a float (it would round to \<open>2 ^ 1024\<close>), else the
  quotient.
\<close>

definition truediv :: "int \<Rightarrow> int \<Rightarrow> py_error + real" where
  "truediv a b =
     (if b = 0 then Inl ZeroDivisionError
      else if 2 ^ 1024 - 2 ^ 970 \<le> \<bar>real_of_int a / real_of_int b\<bar> then Inl OverflowError
      else Inr (real_of_int a / real_of_int b))"

text \<open>\<open>a // b\<close> on Python integers: floor division.\<close>

definition floordiv :: "int \<Rightarrow> int \<Rightarrow> py_error + int" where
  "floordiv a b = (if b = 0 then Inl ZeroDivisionError else Inr (a div b))"

text \<open>\<open>xs[i:j]\<close>: a negative index counts from the end, and both are clipped to the list.\<close>

definition slice :: "'a list \<Rightarrow> int \<Rightarrow> int \<Rightarrow> 'a list" where
  "slice xs i j =
     (let n = int (length xs);
          lo = (if i < 0 then max (i + n) 0 else min i n);
          hi = (if j < 0 then max (j + n) 0 else min j n)
      in take (nat (hi - lo)) (drop (nat lo) xs))"


section \<open>Models (models.py)\<close>

record Address =
  original :: pystr
  cleaned :: pystr
  latitude :: "real option"
  longitude :: "real option"

definition is_geocoded :: "Address \<Rightarrow> bool" where
  "is_geocoded a = (latitude a \<noteq> None \<and> longitude a \<noteq> None)"

text \<open>
  \<open>Address.coordinates\<close>; \<open>str_float\<close> is Python's conversion of a float to text, which the
  f-string applies to each coordinate.
\<close>

definition coordinates :: "(real \<Rightarrow> pystr) \<Rightarrow> Address \<Rightarrow> pystr option" where
  "coordinates str_float a =
     (if is_geocoded a
      then (case (latitude a, longitude a) of
              (Some lat, Some lng) \<Rightarrow> Some (str_float lat @ (py '','') @ str_float lng)
            | _ \<Rightarrow> None)
      else None)"

record ProcessingStats =
  total_addresses :: int
  processed_addresses :: int
  successful_geocodes :: int
  failed_geocodes :: int
  current_batch :: int
  total_batches :: int

definition progress_percentage :: "ProcessingStats \<Rightarrow> py_error + real" where
  "progress_percentage st =
     (if total_addresses st = 0 then Inr 0
      else (case truediv (processed_addresses st) (total_addresses st) of
              Inl e \<Rightarrow> Inl e
            | Inr q \<Rightarrow> Inr (q * 100)))"

definition success_rate :: "ProcessingStats \<Rightarrow> py_error + real" where
  "success_rate st =
     (if processed_addresses st = 0 then Inr 0
      else (case truediv (successful_geocodes st) (processed_addresses st) of
              Inl e \<Rightarrow> Inl e
            | Inr q \<Rightarrow> Inr (q * 100)))"

record GeocodingConfig =
  batch_size :: int
  cache_file :: pystr
  max_workers :: int
  delay_between_requests :: real
  user_agent :: pystr
  input_file :: pystr
  output_file :: pystr
  json_output :: pystr
  python_output :: pystr


section \<open>The environment\<close>

text \<open>
  A lookup outcome as the cache holds it: the pair \<open>(latitude, longitude)\<close>, \<open>(None, None)\<close>
  for a failed lookup.
\<close>

type_synonym coords = "real option \<times> real option"

type_synonym cache_map = "pystr \<rightharpoonup> coords"

text \<open>
  What the program writes to a file, by kind of file: the pickled cache; the result table
  with its columns \<open>Shipping Address\<close>, \<open>Cleaned_Address\<close>, \<open>Latitude\<close> and
  \<open>Longitude\<close>; the JSON form of the coordinate map; and its Python form, whose header
  comment shows the number of addresses and the success rate.
\<close>

datatype content =
    Pickle cache_map
  | CsvTable "(pystr \<times> pystr \<times> real option \<times> real option) list"
  | JsonMap "pystr \<rightharpoonup> pystr option"
  | PyDict int real "pystr \<rightharpoonup> pystr option"

text \<open>
  The effects of a run, in order: a call of the external geocoding capability with its
  address, a file write with its path, content and outcome, a pause in seconds.
\<close>

datatype event =
    Geocode pystr
  | Write pystr content "py_error option"
  | Sleep nat

text \<open>The answer of the external geocoding capability to one call.\<close>

datatype ext_result = Location real real | NoMatch | Raises py_error

datatype encoding = Utf8 | Latin1

type_synonym 'o row = "pystr \<rightharpoonup> 'o pyval"

text \<open>
  Everything outside the program answers as a function of the effects so far:
  the rate-limited geocoder, the file system and the CSV reader.
\<close>

record 'o env =
  geocode :: "event list \<Rightarrow> pystr \<Rightarrow> ext_result"
  path_exists :: "event list \<Rightarrow> pystr \<Rightarrow> bool"
  pickle_load :: "event list \<Rightarrow> pystr \<Rightarrow> py_error + cache_map"
  read_csv :: "event list \<Rightarrow> pystr \<Rightarrow> encoding \<Rightarrow> py_error + 'o row list"
  write_file :: "event list \<Rightarrow> pystr \<Rightarrow> content \<Rightarrow> py_error option"
  str_float :: "real \<Rightarrow> pystr"


section \<open>Program state\<close>

text \<open>
  The view model with its services.  \<open>Address\<close> objects live in a store and the lists
  hold references to them, so that a slice of \<open>addresses\<close> shares its objects with the
  list it was cut from.  \<open>cache\<close> is \<open>CacheService._cache\<close>; \<open>trace\<close> lists the
  effects so far.
\<close>

type_synonym ref = nat

record vm =
  config :: GeocodingConfig
  stats :: ProcessingStats
  addresses :: "ref list"
  store :: "ref \<Rightarrow> Address"
  next_ref :: ref
  cache :: cache_map
  trace :: "event list"

text \<open>
  \<open>try: body  except Exception: return v\<close>: an error that derives from \<open>Exception\<close>
  becomes the value \<open>v\<close>; the state keeps what the body did before it failed.
\<close>

definition except_Exception :: "(py_error + 'a) \<times> vm \<Rightarrow> 'a \<Rightarrow> (py_error + 'a) \<times> vm" where
  "except_Exception r v =
     (case r of
        (Inl e, s) \<Rightarrow> if is_Exception e then (Inr v, s) else (Inl e, s)
      | (Inr x, s) \<Rightarrow> (Inr x, s))"

text \<open>The addresses sent to the external capability, in order.\<close>

fun ext_calls :: "event list \<Rightarrow> pystr list" where
  "ext_calls [] = []"
| "ext_calls (Geocode a # es) = a # ext_calls es"
| "ext_calls (_ # es) = ext_calls es"

text \<open>The file writes attempted, in order.\<close>

fun writes :: "event list \<Rightarrow> (pystr \<times> content) list" where
  "writes [] = []"
| "writes (Write p c _ # es) = (p, c) # writes es"
| "writes (_ # es) = writes es"


section \<open>Services (services.py)\<close>

text \<open>
  \<open>FileService.load_csv\<close>: read as UTF-8, and once more as Latin-1 when the first attempt
  raises \<open>UnicodeDecodeError\<close>.
\<close>

definition load_csv :: "'o env \<Rightarrow> event list \<Rightarrow> pystr \<Rightarrow> py_error + 'o row list" where
  "load_csv env history file_path =
     (case read_csv env history file_path Utf8 of
        Inl e \<Rightarrow> if e = UnicodeDecodeError then read_csv env history file_path Latin1 else Inl e
      | Inr df \<Rightarrow> Inr df)"

text \<open>
  One file write (\<open>save_csv\<close>, \<open>save_json\<close>, \<open>save_python_dict\<close>, and the \<open>open\<close> and
  \<open>pickle.dump\<close> of \<open>save_cache\<close>): the attempt is recorded with its outcome, and a
  failure is raised.
\<close>

definition write_to :: "'o env \<Rightarrow> pystr \<Rightarrow> content \<Rightarrow> vm \<Rightarrow> (py_error + unit) \<times> vm" where
  "write_to env file_path c s =
     (let outcome = write_file env (trace s) file_path c;
          s1 = s\<lparr>trace := trace s @ [Write file_path c outcome]\<rparr>
      in case outcome of None \<Rightarrow> (Inr (), s1) | Some e \<Rightarrow> (Inl e, s1))"

text \<open>\<open>CacheService.load_cache\<close>.\<close>

definition load_cache :: "'o env \<Rightarrow> vm \<Rightarrow> (py_error + cache_map) \<times> vm" where
  "load_cache env s =
     (if path_exists env (trace s) (cache_file (config s))
      then (case pickle_load env (trace s) (cache_file (config s)) of
              Inr loaded \<Rightarrow> (Inr loaded, s\<lparr>cache := loaded\<rparr>)
            | Inl e \<Rightarrow>
                if is_Exception e then (Inr Map.empty, s\<lparr>cache := Map.empty\<rparr>)
                else (Inl e, s))
      else (Inr Map.empty, s\<lparr>cache := Map.empty\<rparr>))"

text \<open>\<open>CacheService.save_cache\<close>.\<close>

definition save_cache :: "'o env \<Rightarrow> vm \<Rightarrow> (py_error + unit) \<times> vm" where
  "save_cache env s =
     except_Exception (write_to env (cache_file (config s)) (Pickle (cache s)) s) ()"

text \<open>\<open>CacheService.get\<close>, \<open>CacheService.set\<close> and \<open>CacheService.size\<close>.\<close>

definition cache_get :: "vm \<Rightarrow> pystr \<Rightarrow> coords option" where
  "cache_get s key = cache s key"

definition cache_set :: "pystr \<Rightarrow> coords \<Rightarrow> vm \<Rightarrow> vm" where
  "cache_set key v s = s\<lparr>cache := (cache s)(key \<mapsto> v)\<rparr>"

definition cache_size :: "vm \<Rightarrow> nat" where
  "cache_size s = card (dom (cache s))"

text \<open>
  \<open>GeocodingService.geocode_address\<close>.  A cached result is returned at once.  Otherwise the
  external capability is called; a location is cached and returned; no match, or an error
  caught by \<open>except Exception\<close>, falls through to the failed result \<open>(None, None)\<close>,
  which is cached as well.
\<close>

definition geocode_address :: "'o env \<Rightarrow> pystr \<Rightarrow> vm \<Rightarrow> (py_error + coords) \<times> vm" where
  "geocode_address env address s =
     (case cache_get s address of
        Some cached_result \<Rightarrow> (Inr cached_result, s)
      | None \<Rightarrow>
          (let s1 = s\<lparr>trace := trace s @ [Geocode address]\<rparr>;
               failed_result = (None, None);
               failed = (Inr failed_result, cache_set address failed_result s1)
           in case geocode env (trace s) address of
                Location lat lon \<Rightarrow>
                  (let result = (Some lat, Some lon)
                   in (Inr result, cache_set address result s1))
              | NoMatch \<Rightarrow> failed
              | Raises e \<Rightarrow> if is_Exception e then failed else (Inl e, s1)))"


section \<open>The view model (viewmodel.py)\<close>

definition default_stats :: ProcessingStats where
  "default_stats =
     \<lparr>total_addresses = 0, processed_addresses = 0, successful_geocodes = 0,
      failed_geocodes = 0, current_batch = 0, total_batches = 0\<rparr>"

text \<open>
  \<open>GeocodingViewModel.__init__\<close>: fresh statistics, no addresses, an empty cache, then
  \<open>load_cache\<close>.  \<open>history\<close> holds the effects of earlier runs.
\<close>

definition new_viewmodel :: "'o env \<Rightarrow> GeocodingConfig \<Rightarrow> event list \<Rightarrow> (py_error + unit) \<times> vm" where
  "new_viewmodel env cfg history =
     (let s = \<lparr>config = cfg, stats = default_stats, addresses = [],
               store = (\<lambda>_. \<lparr>original = [], cleaned = [], latitude = None, longitude = None\<rparr>),
               next_ref = 0, cache = Map.empty, trace = history\<rparr>
      in case load_cache env s of
           (Inl e, s1) \<Rightarrow> (Inl e, s1)
         | (Inr _, s1) \<Rightarrow> (Inr (), s1))"

text \<open>\<open>self.addresses.append(Address(original=..., cleaned=...))\<close>: a new object.\<close>

definition append_Address :: "pystr \<Rightarrow> pystr \<Rightarrow> vm \<Rightarrow> vm" where
  "append_Address orig cl s =
     s\<lparr>store := (store s)(next_ref s :=
           \<lparr>original = orig, cleaned = cl, latitude = None, longitude = None\<rparr>),
       next_ref := Suc (next_ref s),
       addresses := addresses s @ [next_ref s]\<rparr>"

text \<open>The loop of \<open>load_addresses\<close> over the rows of the table.\<close>

fun load_rows :: "'o row list \<Rightarrow> vm \<Rightarrow> (py_error + unit) \<times> vm" where
  "load_rows [] s = (Inr (), s)"
| "load_rows (row # rows) s =
     (case row (py ''Shipping Address'') of
        None \<Rightarrow> (Inl KeyError, s)
      | Some cell \<Rightarrow>
          (let orig = (case cell of Str t \<Rightarrow> strip_chars t (py [CHR 0x22]) | Other _ \<Rightarrow> [])
           in case clean_address (Str orig :: 'o pyval) of
                Inl e \<Rightarrow> (Inl e, s)
              | Inr cl \<Rightarrow> load_rows rows (append_Address orig cl s)))"

text \<open>\<open>GeocodingViewModel.load_addresses\<close>.\<close>

definition load_addresses_body :: "'o env \<Rightarrow> vm \<Rightarrow> (py_error + bool) \<times> vm" where
  "load_addresses_body env s =
     (case load_csv env (trace s) (input_file (config s)) of
        Inl e \<Rightarrow> (Inl e, s)
      | Inr df \<Rightarrow>
          (case load_rows df (s\<lparr>addresses := []\<rparr>) of
             (Inl e, s1) \<Rightarrow> (Inl e, s1)
           | (Inr _, s1) \<Rightarrow>
               (let n = int (length (addresses s1));
                    s2 = s1\<lparr>stats := (stats s1)\<lparr>total_addresses := n\<rparr>\<rparr>
                in case floordiv (n + batch_size (config s2) - 1) (batch_size (config s2)) of
                     Inl e \<Rightarrow> (Inl e, s2)
                   | Inr tb \<Rightarrow> (Inr True, s2\<lparr>stats := (stats s2)\<lparr>total_batches := tb\<rparr>\<rparr>))))"

definition load_addresses :: "'o env \<Rightarrow> vm \<Rightarrow> (py_error + bool) \<times> vm" where
  "load_addresses env s = except_Exception (load_addresses_body env s) False"

text \<open>
  The loop of \<open>process_batch\<close> over the objects of the batch, with the counters
  \<open>batch_stats['processed']\<close> and \<open>batch_stats['successful']\<close>.
\<close>

fun process_batch_loop ::
  "'o env \<Rightarrow> ref list \<Rightarrow> int \<times> int \<Rightarrow> vm \<Rightarrow> (py_error + int \<times> int) \<times> vm" where
  "process_batch_loop env [] batch_stats s = (Inr batch_stats, s)"
| "process_batch_loop env (r # rs) (processed, successful) s =
     (case geocode_address env (cleaned (store s r)) s of
        (Inl e, s1) \<Rightarrow> (Inl e, s1)
      | (Inr (lat, lng), s1) \<Rightarrow>
          (let s2 = s1\<lparr>store := (store s1)(r := (store s1 r)\<lparr>latitude := lat, longitude := lng\<rparr>)\<rparr>;
               processed1 = processed + 1;
               successful1 = (if is_geocoded (store s2 r) then successful + 1 else successful)
           in if processed1 mod 100 = 0
              then (case save_cache env s2 of
                      (Inl e, s3) \<Rightarrow> (Inl e, s3)
                    | (Inr _, s3) \<Rightarrow> process_batch_loop env rs (processed1, successful1) s3)
              else process_batch_loop env rs (processed1, successful1) s2))"

text \<open>\<open>GeocodingViewModel.process_batch\<close>.\<close>

definition process_batch :: "'o env \<Rightarrow> ref list \<Rightarrow> int \<Rightarrow> vm \<Rightarrow> (py_error + unit) \<times> vm" where
  "process_batch env batch_addresses batch_num s =
     (case process_batch_loop env batch_addresses (0, 0) s of
        (Inl e, s1) \<Rightarrow> (Inl e, s1)
      | (Inr (processed, successful), s1) \<Rightarrow>
          (let st = stats s1;
               st = st\<lparr>processed_addresses := processed_addresses st + processed\<rparr>;
               st = st\<lparr>successful_geocodes := successful_geocodes st + successful\<rparr>;
               st = st\<lparr>failed_geocodes := processed_addresses st - successful_geocodes st\<rparr>;
               st = st\<lparr>current_batch := batch_num\<rparr>
           in (Inr (), s1\<lparr>stats := st\<rparr>)))"

text \<open>The \<open>coordinate_map\<close> of \<open>save_results\<close>: a later row overwrites an equal key.\<close>

fun coordinate_map_of ::
  "(real \<Rightarrow> pystr) \<Rightarrow> Address list \<Rightarrow> (pystr \<rightharpoonup> pystr option) \<Rightarrow> (pystr \<rightharpoonup> pystr option)" where
  "coordinate_map_of sf [] m = m"
| "coordinate_map_of sf (a # as) m =
     coordinate_map_of sf as (if is_geocoded a then m(original a \<mapsto> coordinates sf a) else m)"

text \<open>\<open>GeocodingViewModel.save_results\<close>.\<close>

definition save_results_body :: "'o env \<Rightarrow> vm \<Rightarrow> (py_error + unit) \<times> vm" where
  "save_results_body env s =
     (let data = map (\<lambda>r. (original (store s r), cleaned (store s r),
                            latitude (store s r), longitude (store s r))) (addresses s)
      in case write_to env (output_file (config s)) (CsvTable data) s of
           (Inl e, s1) \<Rightarrow> (Inl e, s1)
         | (Inr _, s1) \<Rightarrow>
             (let coordinate_map =
                    coordinate_map_of (str_float env) (map (store s1) (addresses s1)) Map.empty
              in case write_to env (json_output (config s1)) (JsonMap coordinate_map) s1 of
                   (Inl e, s2) \<Rightarrow> (Inl e, s2)
                 | (Inr _, s2) \<Rightarrow>
                     (case success_rate (stats s2) of
                        Inl e \<Rightarrow> (Inl e, s2)
                      | Inr rate \<Rightarrow>
                          write_to env (python_output (config s2))
                            (PyDict (total_addresses (stats s2)) rate coordinate_map) s2)))"

definition save_results :: "'o env \<Rightarrow> vm \<Rightarrow> (py_error + unit) \<times> vm" where
  "save_results env s = except_Exception (save_results_body env s) ()"

text \<open>\<open>GeocodingViewModel._print_progress\<close>: the two rates are computed for the message.\<close>

definition print_progress :: "vm \<Rightarrow> (py_error + unit) \<times> vm" where
  "print_progress s =
     (case progress_percentage (stats s) of
        Inl e \<Rightarrow> (Inl e, s)
      | Inr _ \<Rightarrow> (case success_rate (stats s) of Inl e \<Rightarrow> (Inl e, s) | Inr _ \<Rightarrow> (Inr (), s)))"

text \<open>The loop of \<open>process_all_addresses\<close> over the batch numbers.\<close>

fun batches_loop :: "'o env \<Rightarrow> int list \<Rightarrow> vm \<Rightarrow> (py_error + unit) \<times> vm" where
  "batches_loop env [] s = (Inr (), s)"
| "batches_loop env (batch_num # rest) s =
     (let start_idx = (batch_num - 1) * batch_size (config s);
          end_idx = min (start_idx + batch_size (config s)) (int (length (addresses s)));
          batch_addresses = slice (addresses s) start_idx end_idx
      in case process_batch env batch_addresses batch_num s of
           (Inl e, s1) \<Rightarrow> (Inl e, s1)
         | (Inr _, s1) \<Rightarrow>
             (case save_results env s1 of
                (Inl e, s2) \<Rightarrow> (Inl e, s2)
              | (Inr _, s2) \<Rightarrow>
                  (case save_cache env s2 of
                     (Inl e, s3) \<Rightarrow> (Inl e, s3)
                   | (Inr _, s3) \<Rightarrow>
                       (case print_progress s3 of
                          (Inl e, s4) \<Rightarrow> (Inl e, s4)
                        | (Inr _, s4) \<Rightarrow>
                            batches_loop env rest
                              (if batch_num < total_batches (stats s4)
                               then s4\<lparr>trace := trace s4 @ [Sleep 2]\<rparr> else s4)))))"

text \<open>\<open>GeocodingViewModel.process_all_addresses\<close>.\<close>

definition process_all_addresses :: "'o env \<Rightarrow> vm \<Rightarrow> (py_error + bool) \<times> vm" where
  "process_all_addresses env s =
     (if addresses s = [] then (Inr False, s)
      else except_Exception
             (case batches_loop env [1..total_batches (stats s)] s of
                (Inl e, s1) \<Rightarrow> (Inl e, s1)
              | (Inr _, s1) \<Rightarrow> (Inr True, s1))
             False)"


section \<open>Runs and scenarios\<close>

text \<open>The effects that happened between the states \<open>s\<close> and \<open>s'\<close> of one run.\<close>

definition new_events :: "vm \<Rightarrow> vm \<Rightarrow> event list" where
  "new_events s s' = drop (length (trace s)) (trace s')"

text \<open>
  From \<open>s\<close> to \<open>s'\<close> the run went on, the external capability was not called with \<open>key\<close>,
  and the cache holds for \<open>key\<close> what it held.
\<close>

definition keeps :: "pystr \<Rightarrow> vm \<Rightarrow> vm \<Rightarrow> bool" where
  "keeps key s s' =
     (prefix (trace s) (trace s') \<and> key \<notin> set (ext_calls (new_events s s')) \<and>
      cache s' key = cache s key)"

text \<open>
  The end-to-end scenario: batch size 2, a table of three rows, no cache file, a geocoder
  that knows \<open>A\<close> only, and writes that succeed.  \<open>scenario_str_float\<close> is Python's text
  for the two floats that occur.
\<close>

definition scenario_config :: GeocodingConfig where
  "scenario_config =
     \<lparr>batch_size = 2, cache_file = py ''geocoding_cache.pkl'', max_workers = 5,
      delay_between_requests = 3 / 2, user_agent = py ''large_scale_geocoder_v2'',
      input_file = py ''geocoded_addresses.csv'',
      output_file = py ''geocoded_addresses_updated.csv'',
      json_output = py ''address_coordinates_map.json'',
      python_output = py ''address_coordinates_map.py''\<rparr>"

definition scenario_str_float :: "real \<Rightarrow> pystr" where
  "scenario_str_float x = (if x = 1 then py ''1.0'' else if x = 2 then py ''2.0'' else py ''?'')"

definition scenario_env :: "unit env" where
  "scenario_env =
     \<lparr>geocode = (\<lambda>_ a. if a = py ''A'' then Location 1 2 else NoMatch),
      path_exists = (\<lambda>_ _. False),
      pickle_load = (\<lambda>_ _. Inl OSError),
      read_csv = (\<lambda>_ _ _. Inr [[py ''Shipping Address'' \<mapsto> Str (py ''A, city'')],
                                 [py ''Shipping Address'' \<mapsto> Str (py ''Point 192 - B'')],
                                 [py ''Shipping Address'' \<mapsto> Str (py ''A, city'')]]),
      write_file = (\<lambda>_ _ _. None),
      str_float = scenario_str_float\<rparr>"

definition scenario_start :: "(py_error + unit) \<times> vm" where
  "scenario_start = new_viewmodel scenario_env scenario_config []"

definition scenario_loaded :: "(py_error + bool) \<times> vm" where
  "scenario_loaded = load_addresses scenario_env (snd scenario_start)"

definition scenario_final :: "(py_error + bool) \<times> vm" where
  "scenario_final = process_all_addresses scenario_env (snd scenario_loaded)"

text \<open>
  An environment in which everything fails with an error that derives from \<open>Exception\<close>:
  the cache file exists and cannot be unpickled, no file can be written or read, and the
  geocoder raises.
\<close>

definition failing_env :: "unit env" where
  "failing_env =
     \<lparr>geocode = (\<lambda>_ _. Raises GeocoderError),
      path_exists = (\<lambda>_ _. True),
      pickle_load = (\<lambda>_ _. Inl UnpicklingError),
      read_csv = (\<lambda>_ _ _. Inl OSError),
      write_file = (\<lambda>_ _ _. Some OSError),
      str_float = scenario_str_float\<rparr>"

text \<open>The scenario with an input table that has no rows.\<close>

definition empty_input_env :: "unit env" where
  "empty_input_env = scenario_env\<lparr>read_csv := (\<lambda>_ _ _. Inr [])\<rparr>"


section \<open>String primitives: facts\<close>

lemma contains_sublist: "contains sub s = sublist sub s"
  by (induction s) (simp_all add: sublist_Cons_right)

lemma replace_from_absent: "\<not> sublist old s \<Longrightarrow> replace_from s old new = s"
  by (induction s) (auto simp: sublist_Cons_right)

lemma replace_absent: "\<not> contains old s \<Longrightarrow> replace s old new = s"
  by (auto simp: replace_def contains_sublist replace_from_absent)

lemma length_replace_from_le: "length (replace_from s old []) \<le> length s"
  by (induction s old "[] :: pystr" rule: replace_from.induct) auto

lemma length_replace_from_less:
  "old \<noteq> [] \<Longrightarrow> sublist old s \<Longrightarrow> length (replace_from s old []) < length s"
proof (induction s)
  case Nil
  then show ?case by simp
next
  case (Cons c cs)
  show ?case
  proof (cases "prefix old (c # cs)")
    case True
    have "length (replace_from (drop (length old - 1) cs) old []) \<le> length cs"
      using length_replace_from_le [of "drop (length old - 1) cs" old] by simp
    with True show ?thesis by simp
  next
    case False
    with Cons.prems have "sublist old cs" by (simp add: sublist_Cons_right)
    with Cons.IH Cons.prems False show ?thesis by simp
  qed
qed

lemma length_replace_le: "old \<noteq> [] \<Longrightarrow> length (replace s old []) \<le> length s"
  by (simp add: replace_def length_replace_from_le)

lemma length_replace_less:
  "old \<noteq> [] \<Longrightarrow> contains old s \<Longrightarrow> length (replace s old []) < length s"
  by (simp add: replace_def length_replace_from_less contains_sublist)

lemma split_not_Nil: "split s sep \<noteq> []"
  by (induction s) (auto split: list.splits)

lemma index0_split: "index0 (split s sep) = Inr (takeWhile (\<lambda>c. c \<noteq> sep) s)"
  by (induction s) (auto simp: index0_def split: list.splits)

lemma sublist_strip_where: "sublist (strip_where P s) s"
proof -
  have "sublist (strip_where P s) (rev (dropWhile P (rev s)))"
    by (simp add: strip_where_def)
  moreover have "sublist (rev (dropWhile P (rev s))) s"
    by (simp add: sublist_rev_left)
  ultimately show ?thesis by (rule sublist_order.order_trans)
qed

lemma strip_where_fixed:
  assumes "s = [] \<or> (\<not> P (hd s) \<and> \<not> P (last s))"
  shows "strip_where P s = s"
proof -
  from assms have "dropWhile P (rev s) = rev s"
    by (auto simp: dropWhile_eq_self_iff hd_rev)
  moreover from assms have "dropWhile P s = s"
    by (auto simp: dropWhile_eq_self_iff)
  ultimately show ?thesis by (simp add: strip_where_def)
qed

lemma strip_where_ends:
  "strip_where P s = [] \<or> (\<not> P (hd (strip_where P s)) \<and> \<not> P (last (strip_where P s)))"
proof (cases "strip_where P s = []")
  case True
  then show ?thesis by simp
next
  case False
  let ?u = "rev (dropWhile P (rev s))"
  from False have ne: "dropWhile P ?u \<noteq> []" by (simp add: strip_where_def)
  then have une: "?u \<noteq> []" by (cases "?u") auto
  have "\<not> P (hd (dropWhile P ?u))" using ne by (rule hd_dropWhile)
  moreover have "last (dropWhile P ?u) = last ?u"
    using ne by (metis suffix_dropWhile suffix_def last_appendR)
  moreover have "\<not> P (last ?u)"
    using une by (simp add: last_rev hd_dropWhile)
  ultimately show ?thesis by (simp add: strip_where_def)
qed

lemma strip_where_idem: "strip_where P (strip_where P s) = strip_where P s"
  using strip_where_ends [of P s] by (rule strip_where_fixed)


text \<open>One pass over a text into which copies of the marker were put.\<close>

lemma replace_from_skip_marker:
  assumes "m \<noteq> []"
  shows "replace_from (m @ rest) m new = new @ replace_from rest m new"
proof -
  from assms obtain c cs where m: "m = c # cs" by (cases m) auto
  then show ?thesis by simp
qed

lemma no_early_occurrence:
  assumes m: "m \<noteq> []" and u: "hd m \<notin> set (tl m)"
    and t: "t \<noteq> []" and p: "prefix m (t @ m @ rest)"
  shows "sublist m t"
proof (cases "length m \<le> length t")
  case True
  with p have "prefix m t"
    using prefix_length_prefix [of m "t @ m @ rest" t] by simp
  then show ?thesis by (rule prefix_imp_sublist)
next
  case False
  then have lt: "length t < length m" by simp
  from p obtain z where z: "t @ m @ rest = m @ z" by (auto simp: prefix_def)
  define c where "c = drop (length t) m"
  from lt have cne: "c \<noteq> []" by (simp add: c_def)
  have "drop (length t) (t @ m @ rest) = drop (length t) (m @ z)" by (simp only: z)
  with lt have cz: "m @ rest = c @ z" by (simp add: c_def)
  from cz cne m have "hd c = hd m" by (cases c; cases m) auto
  moreover have "hd c = m ! length t" using lt by (simp add: c_def hd_drop_conv_nth)
  moreover have "m ! length t \<in> set (tl m)"
  proof -
    from t have "0 < length t" by simp
    with lt have "m ! length t = tl m ! (length t - 1)"
      by (cases m) (auto simp: nth_Cons')
    moreover from lt \<open>0 < length t\<close> have "length t - 1 < length (tl m)" by (simp; arith)
    ultimately show ?thesis by (metis nth_mem)
  qed
  ultimately show ?thesis using u by simp
qed

lemma replace_from_scan:
  assumes m: "m \<noteq> []" and u: "hd m \<notin> set (tl m)"
  shows "\<not> sublist m t \<Longrightarrow> replace_from (t @ m @ rest) m new = t @ new @ replace_from rest m new"
proof (induction t)
  case Nil
  from m show ?case by (simp add: replace_from_skip_marker)
next
  case (Cons c t)
  have "\<not> prefix m ((c # t) @ m @ rest)"
    using no_early_occurrence [OF m u, of "c # t" rest] Cons.prems by auto
  moreover from Cons.prems have "\<not> sublist m t" by (auto simp: sublist_Cons_right)
  ultimately show ?case using Cons.IH by simp
qed

lemma replace_from_join:
  assumes m: "m \<noteq> []" and u: "hd m \<notin> set (tl m)"
  shows "\<not> sublist m (concat parts) \<Longrightarrow> replace_from (join m parts) m [] = concat parts"
proof (induction parts rule: induct_list012)
  case 1
  then show ?case by simp
next
  case (2 p)
  then show ?case by (simp add: replace_from_absent)
next
  case (3 p q ps)
  from "3.prems" have a: "\<not> sublist m p" and b: "\<not> sublist m (concat (q # ps))"
    by (auto simp: sublist_append)
  from "3.IH"(2) b have "replace_from (join m (q # ps)) m [] = concat (q # ps)" by simp
  with replace_from_scan [OF m u a, of "join m (q # ps)" "[]"] show ?case by simp
qed

lemma join_Cons: "parts \<noteq> [] \<Longrightarrow> join m (p # parts) = p @ m @ join m parts"
  by (cases parts) simp_all

lemma join_Cons_hd: "join m ((c # q) # ps) = c # join m (q # ps)"
  by (cases ps) simp_all

text \<open>What one pass removes are copies of the marker lying between parts of the result.\<close>

lemma replace_from_parts:
  assumes m: "m \<noteq> []"
  shows "\<exists>parts. parts \<noteq> [] \<and> h = join m parts \<and> replace_from h m [] = concat parts"
proof (induction h rule: length_induct)
  case (1 h)
  show ?case
  proof (cases h)
    case Nil
    then have "[[]] \<noteq> [] \<and> h = join m [[]] \<and> replace_from h m [] = concat [[]]" by simp
    then show ?thesis by blast
  next
    case (Cons c cs)
    show ?thesis
    proof (cases "prefix m h")
      case True
      then obtain rest where h: "h = m @ rest" by (auto simp: prefix_def)
      with m have "length rest < length h" by simp
      with 1 obtain parts where p: "parts \<noteq> []" "rest = join m parts"
        "replace_from rest m [] = concat parts" by blast
      from p h m have "[] # parts \<noteq> [] \<and> h = join m ([] # parts) \<and>
          replace_from h m [] = concat ([] # parts)"
        by (simp add: join_Cons replace_from_skip_marker)
      then show ?thesis by blast
    next
      case False
      from Cons have "length cs < length h" by simp
      with 1 obtain parts where p: "parts \<noteq> []" "cs = join m parts"
        "replace_from cs m [] = concat parts" by blast
      from p(1) obtain q ps where qs: "parts = q # ps" by (cases parts) auto
      from False Cons p qs have "(c # q) # ps \<noteq> [] \<and> h = join m ((c # q) # ps) \<and>
          replace_from h m [] = concat ((c # q) # ps)"
        by (simp add: join_Cons_hd)
      then show ?thesis by blast
    qed
  qed
qed

text \<open>A marker holds no comma, so one pass works on the text before the first comma alone.\<close>

lemma takeWhile_replace_from:
  assumes m: "m \<noteq> []" and sep: "sep \<notin> set m"
  shows "takeWhile (\<lambda>c. c \<noteq> sep) (replace_from s m []) =
         replace_from (takeWhile (\<lambda>c. c \<noteq> sep) s) m []"
proof (induction s rule: length_induct)
  case (1 s)
  show ?case
  proof (cases s)
    case Nil
    then show ?thesis by simp
  next
    case (Cons c cs)
    show ?thesis
    proof (cases "prefix m s")
      case True
      then obtain rest where s: "s = m @ rest" by (auto simp: prefix_def)
      with m have "length rest < length s" by simp
      with 1 have ih: "takeWhile (\<lambda>c. c \<noteq> sep) (replace_from rest m []) =
          replace_from (takeWhile (\<lambda>c. c \<noteq> sep) rest) m []" by blast
      from sep have "takeWhile (\<lambda>c. c \<noteq> sep) (m @ rest) = m @ takeWhile (\<lambda>c. c \<noteq> sep) rest"
        by (intro takeWhile_append2) auto
      with s ih m show ?thesis by (simp add: replace_from_skip_marker)
    next
      case False
      from Cons have "length cs < length s" by simp
      with 1 have ih: "takeWhile (\<lambda>c. c \<noteq> sep) (replace_from cs m []) =
          replace_from (takeWhile (\<lambda>c. c \<noteq> sep) cs) m []" by blast
      show ?thesis
      proof (cases "c = sep")
        case True
        with False Cons show ?thesis by simp
      next
        case ne: False
        have "\<not> prefix m (c # takeWhile (\<lambda>c. c \<noteq> sep) cs)"
        proof
          assume "prefix m (c # takeWhile (\<lambda>c. c \<noteq> sep) cs)"
          moreover have "prefix (c # takeWhile (\<lambda>c. c \<noteq> sep) cs) (c # cs)"
            by (simp add: takeWhile_is_prefix)
          ultimately have "prefix m (c # cs)" by (rule prefix_order.trans)
          with False Cons show False by simp
        qed
        with False Cons ne ih show ?thesis by simp
      qed
    qed
  qed
qed

text \<open>Stripping never cuts into a text that begins and ends with kept characters.\<close>

lemma sublist_dropWhile_keep:
  assumes "m \<noteq> []" "\<not> P (hd m)" "sublist m r"
  shows "sublist m (dropWhile P r)"
proof -
  from assms(3) obtain ps ss where r: "r = ps @ m @ ss" by (auto simp: sublist_def)
  from assms(1,2) have "dropWhile P (m @ ss) = m @ ss" by (cases m) auto
  with r show ?thesis by (auto simp: dropWhile_append)
qed

lemma sublist_strip_where_keep:
  assumes "m \<noteq> []" "\<not> P (hd m)" "\<not> P (last m)" "sublist m r"
  shows "sublist m (strip_where P r)"
proof -
  from assms have "sublist (rev m) (dropWhile P (rev r))"
    by (intro sublist_dropWhile_keep) (simp_all add: hd_rev)
  then have "sublist m (rev (dropWhile P (rev r)))" by (simp add: sublist_rev_right)
  with assms show ?thesis unfolding strip_where_def by (intro sublist_dropWhile_keep)
qed

text \<open>Two markers that share no end: a copy of one, put into a text, meets no occurrence
  of the other.\<close>

lemma sublist_apart:
  assumes am: "\<not> sublist a m" and ma: "\<not> sublist m a"
    and h: "hd a \<notin> set m" and l: "last a \<notin> set (butlast m)" and a: "a \<noteq> []"
    and s: "sublist a (x @ m @ y)"
  shows "sublist a x \<or> sublist a y"
proof -
  have end_in: False if b: "b \<noteq> []" "suffix b a" "prefix b m" for b
  proof (cases "b = m")
    case True
    with b(2) ma show False by (auto dest: suffix_imp_sublist)
  next
    case False
    with b(3) obtain c where c: "m = b @ c" "c \<noteq> []" by (auto simp: prefix_def)
    then have "prefix b (butlast m)" by (simp add: butlast_append)
    with b(1) have "last b \<in> set (butlast m)"
      by (auto simp: prefix_def)
    moreover from b(1,2) have "last b = last a" by (auto simp: suffix_def)
    ultimately show False using l by simp
  qed
  have start_in: False if b: "b \<noteq> []" "suffix b m" "prefix b a" for b
  proof -
    from b(1,3) a have "hd b = hd a" by (cases b; cases a) (auto simp: prefix_def)
    moreover from b(1,2) have "hd b \<in> set m" by (cases b) (auto simp: suffix_def)
    ultimately show False using h by simp
  qed
  from s consider "sublist a x" | "sublist a (m @ y)"
    | a1 a2 where "a = a1 @ a2" "suffix a1 x" "prefix a2 (m @ y)"
    by (auto simp: sublist_append [of a x])
  then show ?thesis
  proof cases
    case 1
    then show ?thesis by simp
  next
    case 2
    then consider "sublist a m" | "sublist a y"
      | a1 a2 where "a = a1 @ a2" "suffix a1 m" "prefix a2 y"
      by (auto simp: sublist_append [of a m])
    then show ?thesis
    proof cases
      case 1
      with am show ?thesis by simp
    next
      case 2
      then show ?thesis by simp
    next
      case (3 a1 a2)
      show ?thesis
      proof (cases "a1 = []")
        case True
        with 3 show ?thesis by (auto dest: prefix_imp_sublist)
      next
        case False
        moreover from 3(1) have "prefix a1 a" by simp
        ultimately show ?thesis using 3(2) start_in [of a1] by simp
      qed
    qed
  next
    case (3 a1 a2)
    from 3(3) consider "prefix a2 m" | zs where "a2 = m @ zs"
      by (auto simp: prefix_append)
    then show ?thesis
    proof cases
      case 1
      show ?thesis
      proof (cases "a2 = []")
        case True
        with 3 show ?thesis by (auto dest: suffix_imp_sublist)
      next
        case False
        moreover from 3(1) have "suffix a2 a" by (simp add: suffix_def)
        ultimately show ?thesis using 1 end_in [of a2] by simp
      qed
    next
      case 2
      with 3(1) ma show ?thesis by (auto simp: sublist_def)
    qed
  qed
qed

lemma sublist_join_apart:
  assumes am: "\<not> sublist a m" and ma: "\<not> sublist m a"
    and h: "hd a \<notin> set m" and l: "last a \<notin> set (butlast m)" and a: "a \<noteq> []"
  shows "\<not> sublist a (concat parts) \<Longrightarrow> \<not> sublist a (join m parts)"
proof (induction parts rule: induct_list012)
  case 1
  then show ?case by simp
next
  case (2 p)
  then show ?case by simp
next
  case (3 p q ps)
  from "3.prems" have p: "\<not> sublist a p" and r: "\<not> sublist a (concat (q # ps))"
    by (auto simp: sublist_append)
  from "3.IH"(2) r have "\<not> sublist a (join m (q # ps))" by simp
  with p sublist_apart [OF am ma h l a, of p "join m (q # ps)"] show ?case by auto
qed


section \<open>The address normaliser: facts\<close>

lemmas str_defs = clean_address_def replace_def marker_jumia_def marker_point_def index0_def
  strip_def strip_where_def isspace_def strip_chars_def

lemma marker_jumia_not_Nil: "marker_jumia \<noteq> []"
  by (simp add: marker_jumia_def)

lemma marker_point_not_Nil: "marker_point \<noteq> []"
  by (simp add: marker_point_def)

text \<open>On a string, the normaliser always returns: the index \<open>[0]\<close> is never out of range.\<close>

lemma clean_address_Str:
  "clean_address (Str s) =
     Inr (strip (takeWhile (\<lambda>c. c \<noteq> comma)
                  (replace (replace s marker_jumia []) marker_point [])))"
  by (simp add: clean_address_def index0_split)

lemma legacy_clean_address_Str:
  "legacy_clean_address (Str s) =
     Inr (Str (strip (takeWhile (\<lambda>c. c \<noteq> comma)
                  (replace (replace s marker_jumia []) marker_point []))))"
  by (simp add: legacy_clean_address_def index0_split)

lemma marker_free_sublist: "sublist t s \<Longrightarrow> marker_free s \<Longrightarrow> marker_free t"
  unfolding marker_free_def contains_sublist
  by (blast intro: sublist_order.order_trans)

lemma sublist_cleaned: "sublist (strip (takeWhile P s)) s"
proof -
  have "sublist (strip (takeWhile P s)) (takeWhile P s)"
    unfolding strip_def by (rule sublist_strip_where)
  moreover have "sublist (takeWhile P s) s" by simp
  ultimately show ?thesis by (rule sublist_order.order_trans)
qed

text \<open>A cleaned text has no comma and no white space at its ends: cutting and stripping it
  again changes nothing.\<close>

lemma cleaned_fixed:
  "strip (takeWhile (\<lambda>c. c \<noteq> sep) (strip (takeWhile (\<lambda>c. c \<noteq> sep) r))) =
   strip (takeWhile (\<lambda>c. c \<noteq> sep) r)"
proof -
  let ?y = "strip (takeWhile (\<lambda>c. c \<noteq> sep) r)"
  have "set ?y \<subseteq> set (takeWhile (\<lambda>c. c \<noteq> sep) r)"
    unfolding strip_def by (rule set_mono_sublist [OF sublist_strip_where])
  then have "\<forall>c\<in>set ?y. c \<noteq> sep"
    by (auto dest: set_takeWhileD)
  then have t: "takeWhile (\<lambda>c. c \<noteq> sep) ?y = ?y"
    by (simp add: takeWhile_eq_all_conv)
  have u: "strip ?y = ?y"
    unfolding strip_def by (rule strip_where_idem)
  show ?thesis by (simp only: t u)
qed

text \<open>A text that contains a marker gets strictly shorter.\<close>

lemma clean_address_shrinks:
  assumes "\<not> marker_free y"
  shows "length (strip (takeWhile (\<lambda>c. c \<noteq> comma)
            (replace (replace y marker_jumia []) marker_point []))) < length y"
proof -
  let ?r1 = "replace y marker_jumia []"
  let ?r2 = "replace ?r1 marker_point []"
  have "length ?r2 < length y"
  proof (cases "contains marker_jumia y")
    case True
    then have "length ?r1 < length y"
      by (simp add: length_replace_less marker_jumia_not_Nil)
    moreover have "length ?r2 \<le> length ?r1"
      by (simp add: length_replace_le marker_point_not_Nil)
    ultimately show ?thesis by simp
  next
    case False
    then have "?r1 = y" by (simp add: replace_absent)
    moreover from False assms have "contains marker_point y"
      by (simp add: marker_free_def)
    ultimately show ?thesis
      by (simp add: length_replace_less marker_point_not_Nil)
  qed
  moreover have "length (strip (takeWhile (\<lambda>c. c \<noteq> comma) ?r2)) \<le> length ?r2"
    by (rule sublist_length_le [OF sublist_cleaned])
  ultimately show ?thesis by simp
qed

lemma marker_ends:
  "hd marker_jumia \<notin> set (tl marker_jumia)" "hd marker_point \<notin> set (tl marker_point)"
  "comma \<notin> set marker_jumia" "comma \<notin> set marker_point"
  "\<not> isspace (hd marker_jumia)" "\<not> isspace (last marker_jumia)"
  "\<not> isspace (hd marker_point)" "\<not> isspace (last marker_point)"
  by (simp_all add: marker_jumia_def marker_point_def isspace_def)

lemma markers_apart:
  "\<not> sublist marker_jumia marker_point" "\<not> sublist marker_point marker_jumia"
  "hd marker_jumia \<notin> set marker_point" "last marker_jumia \<notin> set (butlast marker_point)"
  by (simp_all add: marker_jumia_def marker_point_def contains_sublist [symmetric])

lemma replace_markers:
  "replace s marker_jumia [] = replace_from s marker_jumia []"
  "replace s marker_point [] = replace_from s marker_point []"
  by (simp_all add: replace_def marker_jumia_not_Nil marker_point_not_Nil)

text \<open>The normaliser works on the text before the first comma alone.\<close>

lemma clean_address_head:
  "clean_address (Str s) =
     Inr (strip (replace (replace (takeWhile (\<lambda>c. c \<noteq> comma) s) marker_jumia []) marker_point []))"
proof -
  have "takeWhile (\<lambda>c. c \<noteq> comma) (replace_from (replace_from s marker_jumia []) marker_point []) =
        replace_from (takeWhile (\<lambda>c. c \<noteq> comma) (replace_from s marker_jumia [])) marker_point []"
    by (rule takeWhile_replace_from [OF marker_point_not_Nil marker_ends(4)])
  also have "takeWhile (\<lambda>c. c \<noteq> comma) (replace_from s marker_jumia []) =
        replace_from (takeWhile (\<lambda>c. c \<noteq> comma) s) marker_jumia []"
    by (rule takeWhile_replace_from [OF marker_jumia_not_Nil marker_ends(3)])
  finally show ?thesis
    by (simp only: clean_address_Str replace_markers)
qed

lemma marker_free_strip: "marker_free (strip r) = marker_free r"
proof
  assume "marker_free (strip r)"
  then show "marker_free r"
    unfolding marker_free_def contains_sublist strip_def
    using sublist_strip_where_keep [of marker_jumia isspace r]
      sublist_strip_where_keep [of marker_point isspace r]
    by (auto simp: marker_ends marker_jumia_not_Nil marker_point_not_Nil)
next
  assume "marker_free r"
  then show "marker_free (strip r)"
    unfolding strip_def by (rule marker_free_sublist [OF sublist_strip_where])
qed

text \<open>A text without markers, with copies of the second marker put in and then copies of
  the first: the two passes take all the copies out again.\<close>

lemma remove_inserted:
  assumes u: "marker_free (concat pu)" and v: "join marker_point pu = concat pv"
  shows "replace (replace (join marker_jumia pv) marker_jumia []) marker_point [] = concat pu"
proof -
  from u have uj: "\<not> sublist marker_jumia (concat pu)" and up: "\<not> sublist marker_point (concat pu)"
    by (simp_all add: marker_free_def contains_sublist)
  from uj have "\<not> sublist marker_jumia (join marker_point pu)"
    by (rule sublist_join_apart [OF markers_apart marker_jumia_not_Nil])
  with v have "\<not> sublist marker_jumia (concat pv)" by simp
  then have "replace_from (join marker_jumia pv) marker_jumia [] = concat pv"
    by (rule replace_from_join [OF marker_jumia_not_Nil marker_ends(1)])
  moreover from up have "replace_from (join marker_point pu) marker_point [] = concat pu"
    by (rule replace_from_join [OF marker_point_not_Nil marker_ends(2)])
  ultimately show ?thesis using v by (simp add: replace_markers)
qed

text \<open>Every text arises in that way from what the two passes leave of it.\<close>

lemma inserted_parts:
  "\<exists>pu pv. join marker_point pu = concat pv \<and> h = join marker_jumia pv \<and>
     replace (replace h marker_jumia []) marker_point [] = concat pu"
proof -
  from replace_from_parts [OF marker_jumia_not_Nil, of h] obtain pv where
    pv: "h = join marker_jumia pv" "replace_from h marker_jumia [] = concat pv" by blast
  from replace_from_parts [OF marker_point_not_Nil, of "concat pv"] obtain pu where
    pu: "concat pv = join marker_point pu" "replace_from (concat pv) marker_point [] = concat pu"
    by blast
  from pv pu have "join marker_point pu = concat pv \<and> h = join marker_jumia pv \<and>
     replace (replace h marker_jumia []) marker_point [] = concat pu"
    by (simp add: replace_markers)
  then show ?thesis by blast
qed

text \<open>
  Claim C4, as amended.  For every string \<open>s\<close> the normaliser returns a text \<open>y\<close>, and
  normalising \<open>y\<close> again gives \<open>y\<close> exactly when \<open>y\<close> contains neither marker.  That is
  the case exactly when the text of \<open>s\<close> before its first comma arises from a text \<open>u\<close>
  without markers by putting copies of \<open>Point 192 -\<close> at any positions of \<open>u\<close> and then
  copies of \<open>Jumia- Pargo- Pickup station -\<close> at any positions of the result; the two
  passes then remove every copy, and \<open>y\<close> is \<open>u\<close> stripped.  In particular \<open>y\<close> contains
  no marker when \<open>s\<close> contains none, and when what the two passes leave of \<open>s\<close> contains
  none.  A value that is not a string gives the empty text, which contains no marker and
  is normalised to itself.
\<close>

theorem clean_address_idempotent_iff:
  "(\<exists>y. clean_address (Str s :: 'o pyval) = Inr y \<and>
        (marker_free (replace (replace s marker_jumia []) marker_point []) \<longrightarrow>
           marker_free y) \<and>
        (marker_free s \<longrightarrow> marker_free y) \<and>
        (clean_address (Str y :: 'o pyval) = Inr y \<longleftrightarrow> marker_free y) \<and>
        (marker_free y \<longleftrightarrow>
           (\<exists>pu pv. marker_free (concat pu) \<and> join marker_point pu = concat pv \<and>
                    takeWhile (\<lambda>c. c \<noteq> comma) s = join marker_jumia pv)) \<and>
        (\<forall>pu pv. marker_free (concat pu) \<and> join marker_point pu = concat pv \<and>
                 takeWhile (\<lambda>c. c \<noteq> comma) s = join marker_jumia pv \<longrightarrow>
                 y = strip (concat pu))) \<and>
   clean_address (Other x :: 'o pyval) = Inr [] \<and> marker_free [] \<and>
   clean_address (Str [] :: 'o pyval) = Inr []"
proof -
  let ?r = "replace (replace s marker_jumia []) marker_point []"
  let ?y = "strip (takeWhile (\<lambda>c. c \<noteq> comma) ?r)"
  let ?h = "takeWhile (\<lambda>c. c \<noteq> comma) s"
  let ?rh = "replace (replace ?h marker_jumia []) marker_point []"
  have y: "clean_address (Str s :: 'o pyval) = Inr ?y" by (rule clean_address_Str)
  have "clean_address (Str s :: 'o pyval) = Inr (strip ?rh)" by (rule clean_address_head)
  with y have yh: "?y = strip ?rh" by simp
  have a: "marker_free ?r \<longrightarrow> marker_free ?y"
    using marker_free_sublist [OF sublist_cleaned] by blast
  have "marker_free s \<Longrightarrow> ?r = s"
    by (simp add: marker_free_def replace_absent)
  with a have b: "marker_free s \<longrightarrow> marker_free ?y" by auto
  have c: "clean_address (Str ?y :: 'o pyval) = Inr ?y" if "marker_free ?y"
  proof -
    from that have "replace (replace ?y marker_jumia []) marker_point [] = ?y"
      by (simp add: marker_free_def replace_absent)
    then show ?thesis
      by (simp only: clean_address_Str cleaned_fixed)
  qed
  have d: "clean_address (Str ?y :: 'o pyval) \<noteq> Inr ?y" if "\<not> marker_free ?y"
    using clean_address_shrinks [OF that] by (auto simp: clean_address_Str)
  have e: "clean_address (Other x :: 'o pyval) = Inr [] \<and> marker_free [] \<and>
           clean_address (Str [] :: 'o pyval) = Inr []"
    by (simp add: str_defs marker_free_def)
  have f: "?y = strip (concat pu)"
    if "marker_free (concat pu)" "join marker_point pu = concat pv" "?h = join marker_jumia pv"
    for pu pv
    using remove_inserted [OF that(1,2)] that(3) yh by simp
  have g: "marker_free ?y"
    if "marker_free (concat pu)" "join marker_point pu = concat pv" "?h = join marker_jumia pv"
    for pu pv
    using f [OF that] that(1) by (simp add: marker_free_strip)
  have i: "\<exists>pu pv. marker_free (concat pu) \<and> join marker_point pu = concat pv \<and>
             ?h = join marker_jumia pv" if "marker_free ?y"
  proof -
    from inserted_parts [of ?h] obtain pu pv where
      p: "join marker_point pu = concat pv" "?h = join marker_jumia pv" "?rh = concat pu"
      by blast
    from that have "marker_free (strip ?rh)" by (simp only: yh)
    then have "marker_free ?rh" by (simp only: marker_free_strip)
    with p show ?thesis by auto
  qed
  have cd: "clean_address (Str ?y :: 'o pyval) = Inr ?y \<longleftrightarrow> marker_free ?y"
    using c d by blast
  have gi: "marker_free ?y \<longleftrightarrow>
      (\<exists>pu pv. marker_free (concat pu) \<and> join marker_point pu = concat pv \<and>
               ?h = join marker_jumia pv)"
    using g i by blast
  have ff: "\<forall>pu pv. marker_free (concat pu) \<and> join marker_point pu = concat pv \<and>
               ?h = join marker_jumia pv \<longrightarrow> ?y = strip (concat pu)"
    using f by blast
  from y a b cd gi ff have "\<exists>y. clean_address (Str s :: 'o pyval) = Inr y \<and>
        (marker_free ?r \<longrightarrow> marker_free y) \<and> (marker_free s \<longrightarrow> marker_free y) \<and>
        (clean_address (Str y :: 'o pyval) = Inr y \<longleftrightarrow> marker_free y) \<and>
        (marker_free y \<longleftrightarrow>
           (\<exists>pu pv. marker_free (concat pu) \<and> join marker_point pu = concat pv \<and>
                    ?h = join marker_jumia pv)) \<and>
        (\<forall>pu pv. marker_free (concat pu) \<and> join marker_point pu = concat pv \<and>
                 ?h = join marker_jumia pv \<longrightarrow> y = strip (concat pu))"
    by (intro exI [of _ ?y] conjI)
  with e show ?thesis by (intro conjI) blast+
qed

text \<open>
  The amended claim C4 at three addresses: one with a copy of the first marker and two of
  the second before its comma, which is normalised to \<open>Maadi\<close>; \<open>Point 192 - B\<close>, which
  is normalised to \<open>B\<close>; and \<open>A, city\<close>, which contains no marker.
\<close>

theorem clean_address_idempotent_iff_witness:
  "marker_free (concat [[], py '' Maadi '', []]) \<and>
   join marker_point [[], py '' Maadi '', []] =
     concat [[], py ''Point 192 - Maadi Point 192 -''] \<and>
   takeWhile (\<lambda>c. c \<noteq> comma)
     (py ''Jumia- Pargo- Pickup station -Point 192 - Maadi Point 192 -, Cairo'') =
     join marker_jumia [[], py ''Point 192 - Maadi Point 192 -''] \<and>
   clean_address
     (Str (py ''Jumia- Pargo- Pickup station -Point 192 - Maadi Point 192 -, Cairo'')
        :: unit pyval) = Inr (py ''Maadi'') \<and>
   marker_free (py ''Maadi'') \<and>
   clean_address (Str (py ''Maadi'') :: unit pyval) = Inr (py ''Maadi'') \<and>
   marker_free (concat [[], py '' B'']) \<and>
   join marker_point [[], py '' B''] = concat [py ''Point 192 - B''] \<and>
   takeWhile (\<lambda>c. c \<noteq> comma) (py ''Point 192 - B'') = join marker_jumia [py ''Point 192 - B''] \<and>
   clean_address (Str (py ''Point 192 - B'') :: unit pyval) = Inr (py ''B'') \<and>
   marker_free (py ''A, city'') \<and>
   marker_free (replace (replace (py ''A, city'') marker_jumia []) marker_point []) \<and>
   clean_address (Str (py ''A, city'') :: unit pyval) = Inr (py ''A'') \<and>
   marker_free (py ''A'') \<and> clean_address (Str (py ''A'') :: unit pyval) = Inr (py ''A'')"
proof -
  let ?s = "py ''Jumia- Pargo- Pickup station -Point 192 - Maadi Point 192 -, Cairo''"
  let ?pu = "[[], py '' Maadi '', []]"
  let ?pv = "[[], py ''Point 192 - Maadi Point 192 -'']"
  have h: "marker_free (concat ?pu) \<and> join marker_point ?pu = concat ?pv \<and>
           takeWhile (\<lambda>c. c \<noteq> comma) ?s = join marker_jumia ?pv"
    by (simp add: marker_free_def marker_jumia_def marker_point_def)
  from clean_address_idempotent_iff [of ?s, where 'o = unit] obtain y where
    y: "clean_address (Str ?s :: unit pyval) = Inr y"
      "clean_address (Str y :: unit pyval) = Inr y \<longleftrightarrow> marker_free y"
      "marker_free y \<longleftrightarrow>
         (\<exists>pu pv. marker_free (concat pu) \<and> join marker_point pu = concat pv \<and>
                  takeWhile (\<lambda>c. c \<noteq> comma) ?s = join marker_jumia pv)"
      "\<forall>pu pv. marker_free (concat pu) \<and> join marker_point pu = concat pv \<and>
               takeWhile (\<lambda>c. c \<noteq> comma) ?s = join marker_jumia pv \<longrightarrow>
               y = strip (concat pu)"
    by blast
  from y(4) h have "y = strip (concat ?pu)" by blast
  then have ym: "y = py ''Maadi''" by (simp add: strip_def strip_where_def isspace_def)
  from y(3) h have "marker_free y" by blast
  with y(1,2) ym have b: "clean_address (Str ?s :: unit pyval) = Inr (py ''Maadi'') \<and>
      marker_free (py ''Maadi'') \<and>
      clean_address (Str (py ''Maadi'') :: unit pyval) = Inr (py ''Maadi'')"
    by simp
  let ?t = "py ''Point 192 - B''"
  let ?qu = "[[], py '' B'']"
  let ?qv = "[py ''Point 192 - B'']"
  have k: "marker_free (concat ?qu) \<and> join marker_point ?qu = concat ?qv \<and>
           takeWhile (\<lambda>c. c \<noteq> comma) ?t = join marker_jumia ?qv"
    by (simp add: marker_free_def marker_jumia_def marker_point_def)
  from clean_address_idempotent_iff [of ?t, where 'o = unit] obtain z where
    z: "clean_address (Str ?t :: unit pyval) = Inr z"
      "\<forall>pu pv. marker_free (concat pu) \<and> join marker_point pu = concat pv \<and>
               takeWhile (\<lambda>c. c \<noteq> comma) ?t = join marker_jumia pv \<longrightarrow>
               z = strip (concat pu)"
    by blast
  from z(2) k have "z = strip (concat ?qu)" by blast
  then have "z = py ''B''" by (simp add: strip_def strip_where_def isspace_def)
  with z(1) have c: "clean_address (Str ?t :: unit pyval) = Inr (py ''B'')" by simp
  have a: "marker_free (py ''A, city'') \<and>
      marker_free (replace (replace (py ''A, city'') marker_jumia []) marker_point []) \<and>
      clean_address (Str (py ''A, city'') :: unit pyval) = Inr (py ''A'') \<and>
      marker_free (py ''A'') \<and> clean_address (Str (py ''A'') :: unit pyval) = Inr (py ''A'')"
    using clean_address_idempotent_iff [of "py ''A, city''", where 'o = unit]
    by (simp add: str_defs marker_free_def)
  from h b k c a show ?thesis by blast
qed

text \<open>
  Claim C4 as stated fails.  In \<open>Point 192Point 192 - -\<close> the marker \<open>Point 192 -\<close>
  occurs once, in the middle; removing it joins the text around it to the marker itself.
  The result contains the marker, and normalising it again gives the empty text.
\<close>

theorem clean_address_not_idempotent:
  "clean_address (Str (py ''Point 192Point 192 - -'') :: unit pyval) = Inr (py ''Point 192 -'') \<and>
   contains marker_point (py ''Point 192 -'') \<and>
   clean_address (Str (py ''Point 192 -'') :: unit pyval) = Inr [] \<and>
   clean_address (Str (py ''Point 192 -'') :: unit pyval) \<noteq>
     clean_address (Str (py ''Point 192Point 192 - -'') :: unit pyval)"
  by (simp add: str_defs)

text \<open>
  Claim C7.  The normaliser returns the empty string for the empty string and for every
  value that is not a string.
\<close>

theorem clean_address_empty_or_not_str:
  "clean_address (Str []) = Inr [] \<and> clean_address (Other x) = Inr []"
  by (simp add: str_defs)

text \<open>
  Claim C10 as stated fails on a value that is not a string: the legacy script returns
  the value itself, the service returns the empty string.
\<close>

theorem legacy_clean_address_differs:
  "legacy_clean_address (Other ()) = Inr (Other ()) \<and>
   clean_address (Other ()) = Inr [] \<and>
   legacy_clean_address (Other ()) \<noteq> map_sum id Str (clean_address (Other ()))"
  by (simp add: legacy_clean_address_def clean_address_def)

text \<open>
  Claim C10, as amended.  On every string the legacy script and the service return the
  same string.  On a value that is not a string the legacy script returns the value
  unchanged and the service returns the empty string.
\<close>

theorem legacy_clean_address_agrees_on_str:
  "(\<exists>y. clean_address (Str s) = Inr y \<and> legacy_clean_address (Str s) = Inr (Str y)) \<and>
   legacy_clean_address (Other x) = Inr (Other x) \<and> clean_address (Other x) = Inr []"
  by (simp add: clean_address_Str legacy_clean_address_Str)
     (simp add: legacy_clean_address_def clean_address_def)


section \<open>Statistics: facts\<close>

text \<open>
  Claim C9.  The progress percentage is 0 when no address is loaded, the success rate is
  0 when none is processed, and neither property raises \<open>ZeroDivisionError\<close> in any state
  of the statistics.
\<close>

theorem stats_division_guarded:
  "(total_addresses st = 0 \<longrightarrow> progress_percentage st = Inr 0) \<and>
   (processed_addresses st = 0 \<longrightarrow> success_rate st = Inr 0) \<and>
   progress_percentage st \<noteq> Inl ZeroDivisionError \<and>
   success_rate st \<noteq> Inl ZeroDivisionError"
  by (auto simp: progress_percentage_def success_rate_def truediv_def split: sum.splits if_splits)

text \<open>Claim C9 at the statistics of a new view model, where both counts are 0.\<close>

theorem stats_division_guarded_witness:
  "total_addresses default_stats = 0 \<and> progress_percentage default_stats = Inr 0 \<and>
   processed_addresses default_stats = 0 \<and> success_rate default_stats = Inr 0"
  using stats_division_guarded [of default_stats]
  by (simp add: default_stats_def)


section \<open>What a run keeps\<close>

lemma ext_calls_append: "ext_calls (es @ fs) = ext_calls es @ ext_calls fs"
  by (induction es rule: ext_calls.induct) simp_all

lemma keeps_refl: "keeps key s s"
  by (simp add: keeps_def new_events_def)

lemma keeps_trans:
  assumes a: "keeps key s s1" and b: "keeps key s1 s2"
  shows "keeps key s s2"
proof -
  from a obtain es where es: "trace s1 = trace s @ es" and k1: "key \<notin> set (ext_calls es)"
    by (auto simp: keeps_def new_events_def prefix_def)
  from b obtain fs where fs: "trace s2 = trace s1 @ fs" and k2: "key \<notin> set (ext_calls fs)"
    by (auto simp: keeps_def new_events_def prefix_def)
  from es fs k1 k2 a b show ?thesis
    by (simp add: keeps_def new_events_def ext_calls_append)
qed

lemma keeps_cache: "keeps key s s' \<Longrightarrow> cache s key = Some v \<Longrightarrow> cache s' key = Some v"
  by (simp add: keeps_def)

lemma keeps_stats: "keeps key s s' \<Longrightarrow> keeps key s (s'\<lparr>stats := st\<rparr>)"
  by (simp add: keeps_def new_events_def)

lemma keeps_store: "keeps key s s' \<Longrightarrow> keeps key s (s'\<lparr>store := st\<rparr>)"
  by (simp add: keeps_def new_events_def)

lemma keeps_sleep: "keeps key s (s\<lparr>trace := trace s @ [Sleep n]\<rparr>)"
  by (simp add: keeps_def new_events_def)

lemma write_to_keeps: "write_to env p c s = (r, s') \<Longrightarrow> keeps key s s'"
  by (auto simp: write_to_def Let_def keeps_def new_events_def split: option.splits)

lemma except_Exception_keeps:
  "except_Exception (r0, s0) v = (r, s') \<Longrightarrow> keeps key s s0 \<Longrightarrow> keeps key s s'"
  by (auto simp: except_Exception_def split: sum.splits if_splits)

lemma save_cache_keeps: "save_cache env s = (r, s') \<Longrightarrow> keeps key s s'"
  unfolding save_cache_def
  by (cases "write_to env (cache_file (config s)) (Pickle (cache s)) s")
     (auto dest: except_Exception_keeps write_to_keeps)

lemma save_results_body_keeps: "save_results_body env s = (r, s') \<Longrightarrow> keeps key s s'"
  unfolding save_results_body_def Let_def
  by (auto split: prod.splits sum.splits dest!: write_to_keeps [where key = key])
     (blast intro: keeps_trans)+

lemma save_results_keeps: "save_results env s = (r, s') \<Longrightarrow> keeps key s s'"
  unfolding save_results_def
  by (cases "save_results_body env s")
     (auto dest: except_Exception_keeps save_results_body_keeps)

lemma print_progress_keeps: "print_progress s = (r, s') \<Longrightarrow> keeps key s s'"
  by (auto simp: print_progress_def keeps_refl split: sum.splits)

lemma geocode_address_hit: "cache s key = Some v \<Longrightarrow> geocode_address env key s = (Inr v, s)"
  by (simp add: geocode_address_def cache_get_def)

text \<open>A call for any address leaves a cached key alone: for the key itself it is a hit,
  for another address it calls and writes under that address only.\<close>

lemma geocode_address_keeps:
  "cache s key = Some v \<Longrightarrow> geocode_address env a s = (r, s') \<Longrightarrow> keeps key s s'"
  by (cases "a = key")
     (auto simp: geocode_address_def cache_get_def cache_set_def Let_def keeps_def new_events_def
           split: option.splits ext_result.splits if_splits)

lemma process_batch_loop_keeps:
  "cache s key = Some v \<Longrightarrow> process_batch_loop env rs bs s = (r, s') \<Longrightarrow> keeps key s s'"
proof (induction env rs bs s rule: process_batch_loop.induct)
  case (1 env batch_stats s)
  then show ?case by (simp add: keeps_refl)
next
  case (2 env r0 rs processed successful s)
  obtain g s1 where g: "geocode_address env (cleaned (store s r0)) s = (g, s1)"
    by (cases "geocode_address env (cleaned (store s r0)) s")
  from "2.prems"(1) g have k1: "keeps key s s1" by (rule geocode_address_keeps)
  show ?case
  proof (cases g)
    case (Inl e)
    with g "2.prems"(2) k1 show ?thesis by simp
  next
    case (Inr c)
    obtain lat lng where c: "c = (lat, lng)" by (cases c)
    let ?s2 = "s1\<lparr>store := (store s1)(r0 := (store s1 r0)\<lparr>latitude := lat, longitude := lng\<rparr>)\<rparr>"
    let ?p = "processed + 1"
    let ?q = "if is_geocoded (store ?s2 r0) then successful + 1 else successful"
    have k2: "keeps key s ?s2" using k1 by (rule keeps_store)
    then have c2: "cache ?s2 key = Some v" using "2.prems"(1) by (rule keeps_cache)
    show ?thesis
    proof (cases "?p mod 100 = 0")
      case True
      obtain w s3 where w: "save_cache env ?s2 = (w, s3)" by (cases "save_cache env ?s2")
      then have k3: "keeps key ?s2 s3" by (rule save_cache_keeps)
      with k2 have k23: "keeps key s s3" by (rule keeps_trans)
      then have c3: "cache s3 key = Some v" using "2.prems"(1) by (rule keeps_cache)
      show ?thesis
      proof (cases w)
        case (Inl e)
        with g Inr c True w "2.prems"(2) k23 show ?thesis by (simp add: Let_def)
      next
        case (Inr u)
        with g \<open>g = Inr c\<close> c True w "2.prems"(2)
        have "process_batch_loop env rs (?p, ?q) s3 = (r, s')" by (simp add: Let_def)
        with "2.IH"(1) [OF g [symmetric] \<open>g = Inr c\<close> c [symmetric] refl refl refl True
            w [symmetric] Inr c3]
        have "keeps key s3 s'" by simp
        with k23 show ?thesis by (rule keeps_trans)
      qed
    next
      case False
      with g Inr c "2.prems"(2)
      have "process_batch_loop env rs (?p, ?q) ?s2 = (r, s')" by (simp add: Let_def)
      with "2.IH"(2) [OF g [symmetric] Inr c [symmetric] refl refl refl False c2]
      have "keeps key ?s2 s'" by simp
      with k2 show ?thesis by (rule keeps_trans)
    qed
  qed
qed

lemma process_batch_keeps:
  "cache s key = Some v \<Longrightarrow> process_batch env refs n s = (r, s') \<Longrightarrow> keeps key s s'"
  unfolding process_batch_def Let_def
  by (auto split: prod.splits sum.splits
           dest!: process_batch_loop_keeps [where key = key and v = v] intro: keeps_stats)

lemma batches_loop_keeps:
  "cache s key = Some v \<Longrightarrow> batches_loop env ns s = (r, s') \<Longrightarrow> keeps key s s'"
proof (induction ns arbitrary: s)
  case Nil
  then show ?case by (simp add: keeps_refl)
next
  case (Cons n ns)
  let ?refs = "slice (addresses s) ((n - 1) * batch_size (config s))
                 (min ((n - 1) * batch_size (config s) + batch_size (config s))
                      (int (length (addresses s))))"
  obtain r1 s1 where p: "process_batch env ?refs n s = (r1, s1)"
    by (cases "process_batch env ?refs n s")
  with Cons.prems(1) have k1: "keeps key s s1" by (rule process_batch_keeps)
  obtain r2 s2 where q: "save_results env s1 = (r2, s2)" by (cases "save_results env s1")
  then have "keeps key s1 s2" by (rule save_results_keeps)
  with k1 have k2: "keeps key s s2" by (rule keeps_trans)
  obtain r3 s3 where c: "save_cache env s2 = (r3, s3)" by (cases "save_cache env s2")
  then have "keeps key s2 s3" by (rule save_cache_keeps)
  with k2 have k3: "keeps key s s3" by (rule keeps_trans)
  obtain r4 s4 where pp: "print_progress s3 = (r4, s4)" by (cases "print_progress s3")
  then have "keeps key s3 s4" by (rule print_progress_keeps)
  with k3 have k4: "keeps key s s4" by (rule keeps_trans)
  let ?s5 = "if n < total_batches (stats s4) then s4\<lparr>trace := trace s4 @ [Sleep 2]\<rparr> else s4"
  have "keeps key s4 ?s5" by (simp add: keeps_sleep keeps_refl)
  with k4 have k5: "keeps key s ?s5" by (rule keeps_trans)
  then have c5: "cache ?s5 key = Some v" using Cons.prems(1) by (rule keeps_cache)
  show ?case
  proof (cases "\<exists>u1 u2 u3 u4. r1 = Inr u1 \<and> r2 = Inr u2 \<and> r3 = Inr u3 \<and> r4 = Inr u4")
    case True
    with p q c pp Cons.prems(2) have "batches_loop env ns ?s5 = (r, s')"
      by (auto simp: Let_def)
    with c5 have "keeps key ?s5 s'" by (rule Cons.IH)
    with k5 show ?thesis by (rule keeps_trans)
  next
    case False
    with p q c pp Cons.prems(2) k1 k2 k3 k4 show ?thesis
      by (cases r1; cases r2; cases r3; cases r4) (auto simp: Let_def)
  qed
qed

lemma process_all_addresses_keeps:
  "cache s key = Some v \<Longrightarrow> process_all_addresses env s = (r, s') \<Longrightarrow> keeps key s s'"
  unfolding process_all_addresses_def
  by (cases "batches_loop env [1..total_batches (stats s)] s")
     (auto simp: keeps_refl except_Exception_def split: if_splits sum.splits
           dest: batches_loop_keeps)


section \<open>The scenario, evaluated\<close>

lemmas run_defs = new_viewmodel_def load_cache_def default_stats_def
  load_addresses_def load_addresses_body_def load_csv_def except_Exception_def
  append_Address_def floordiv_def process_all_addresses_def process_batch_def
  geocode_address_def cache_get_def cache_set_def save_cache_def save_results_def
  save_results_body_def write_to_def print_progress_def progress_percentage_def
  success_rate_def truediv_def slice_def is_geocoded_def coordinates_def

lemma scenario_start_eq:
  "scenario_start =
     (Inr (),
      \<lparr>config = scenario_config, stats = default_stats, addresses = [],
       store = (\<lambda>_. \<lparr>original = [], cleaned = [], latitude = None, longitude = None\<rparr>),
       next_ref = 0, cache = Map.empty, trace = []\<rparr>)"
  by (simp add: scenario_start_def new_viewmodel_def load_cache_def scenario_env_def)

lemma scenario_loaded_eq:
  "scenario_loaded =
     (Inr True,
      \<lparr>config = scenario_config,
       stats = default_stats\<lparr>total_addresses := 3, total_batches := 2\<rparr>,
       addresses = [0, Suc 0, Suc (Suc 0)],
       store = (\<lambda>_. \<lparr>original = [], cleaned = [], latitude = None, longitude = None\<rparr>)
         (0 := \<lparr>original = py ''A, city'', cleaned = py ''A'', latitude = None, longitude = None\<rparr>,
          Suc 0 := \<lparr>original = py ''Point 192 - B'', cleaned = py ''B'', latitude = None,
                 longitude = None\<rparr>,
          Suc (Suc 0) := \<lparr>original = py ''A, city'', cleaned = py ''A'', latitude = None, longitude = None\<rparr>),
       next_ref = Suc (Suc (Suc 0)), cache = Map.empty, trace = []\<rparr>)"
  by (simp add: scenario_loaded_def scenario_start_eq scenario_env_def scenario_config_def
        load_addresses_def load_addresses_body_def load_csv_def except_Exception_def
        append_Address_def floordiv_def default_stats_def str_defs Let_def)

text \<open>The whole run: two external calls, then the files of each of the two batches.\<close>

lemma scenario_final_eq:
  "scenario_final =
     (Inr True,
      \<lparr>config = scenario_config,
       stats = \<lparr>total_addresses = 3, processed_addresses = 3, successful_geocodes = 2,
                failed_geocodes = 1, current_batch = 2, total_batches = 2\<rparr>,
       addresses = [0, Suc 0, Suc (Suc 0)],
       store = (\<lambda>_. \<lparr>original = [], cleaned = [], latitude = None, longitude = None\<rparr>)
         (0 := \<lparr>original = py ''A, city'', cleaned = py ''A'', latitude = Some 1,
                 longitude = Some 2\<rparr>,
          Suc 0 := \<lparr>original = py ''Point 192 - B'', cleaned = py ''B'', latitude = None,
                 longitude = None\<rparr>,
          Suc (Suc 0) := \<lparr>original = py ''A, city'', cleaned = py ''A'', latitude = Some 1,
                 longitude = Some 2\<rparr>),
       next_ref = Suc (Suc (Suc 0)),
       cache = [py ''A'' \<mapsto> (Some 1, Some 2), (py ''B'') \<mapsto> (None, None)],
       trace =
         [Geocode (py ''A''), Geocode (py ''B''),
          Write (py ''geocoded_addresses_updated.csv'')
            (CsvTable [((py ''A, city''), (py ''A''), Some 1, Some 2),
                       ((py ''Point 192 - B''), (py ''B''), None, None),
                       ((py ''A, city''), (py ''A''), None, None)]) None,
          Write (py ''address_coordinates_map.json'')
            (JsonMap [py ''A, city'' \<mapsto> Some (py ''1.0,2.0'')]) None,
          Write (py ''address_coordinates_map.py'')
            (PyDict 3 50 [py ''A, city'' \<mapsto> Some (py ''1.0,2.0'')]) None,
          Write (py ''geocoding_cache.pkl'')
            (Pickle [py ''A'' \<mapsto> (Some 1, Some 2), (py ''B'') \<mapsto> (None, None)]) None,
          Sleep 2,
          Write (py ''geocoded_addresses_updated.csv'')
            (CsvTable [((py ''A, city''), (py ''A''), Some 1, Some 2),
                       ((py ''Point 192 - B''), (py ''B''), None, None),
                       ((py ''A, city''), (py ''A''), Some 1, Some 2)]) None,
          Write (py ''address_coordinates_map.json'')
            (JsonMap [py ''A, city'' \<mapsto> Some (py ''1.0,2.0'')]) None,
          Write (py ''address_coordinates_map.py'')
            (PyDict 3 (200 / 3) [py ''A, city'' \<mapsto> Some (py ''1.0,2.0'')]) None,
          Write (py ''geocoding_cache.pkl'')
            (Pickle [py ''A'' \<mapsto> (Some 1, Some 2), (py ''B'') \<mapsto> (None, None)]) None]\<rparr>)"
  by (simp add: scenario_final_def scenario_loaded_eq scenario_env_def scenario_config_def
        scenario_str_float_def run_defs Let_def upto.simps)

text \<open>
  Claim C2.  In the scenario the three addresses load with the normalised forms \<open>A\<close>,
  \<open>B\<close>, \<open>A\<close>; the run succeeds; the cache ends with \<open>A\<close> resolved to \<open>(1.0, 2.0)\<close> and
  \<open>B\<close> failed; the external capability is called exactly twice, for \<open>A\<close> and then for
  \<open>B\<close>; both rows with the original \<open>A, city\<close> have the coordinates and the row of \<open>B\<close>
  has none; the mapping written last, keyed by the original address, has the one key
  \<open>A, city\<close>; and the success rate is \<open>2 / 3 * 100\<close>, which is 66.7 to one decimal.
\<close>

theorem end_to_end_scenario:
  "fst scenario_loaded = Inr True \<and>
   map (\<lambda>r. cleaned (store (snd scenario_loaded) r)) (addresses (snd scenario_loaded)) =
     [py ''A'', (py ''B''), (py ''A'')] \<and>
   fst scenario_final = Inr True \<and>
   cache (snd scenario_final) = [py ''A'' \<mapsto> (Some 1, Some 2), (py ''B'') \<mapsto> (None, None)] \<and>
   ext_calls (trace (snd scenario_final)) = [py ''A'', (py ''B'')] \<and>
   map (\<lambda>r. (original (store (snd scenario_final) r), latitude (store (snd scenario_final) r),
             longitude (store (snd scenario_final) r))) (addresses (snd scenario_final)) =
     [((py ''A, city''), Some 1, Some 2), ((py ''Point 192 - B''), None, None),
      ((py ''A, city''), Some 1, Some 2)] \<and>
   last (filter (\<lambda>w. fst w = json_output scenario_config) (writes (trace (snd scenario_final)))) =
     ((py ''address_coordinates_map.json''), JsonMap [py ''A, city'' \<mapsto> Some (py ''1.0,2.0'')]) \<and>
   last (filter (\<lambda>w. fst w = python_output scenario_config)
           (writes (trace (snd scenario_final)))) =
     ((py ''address_coordinates_map.py''), PyDict 3 (200 / 3) [py ''A, city'' \<mapsto> Some (py ''1.0,2.0'')]) \<and>
   dom [py ''A, city'' \<mapsto> Some (py ''1.0,2.0'')] = {(py ''A, city'')} \<and>
   success_rate (stats (snd scenario_final)) = Inr (200 / 3) \<and>
   \<bar>200 / 3 - 66.7\<bar> < (0.05 :: real)"
  by (simp add: scenario_loaded_eq scenario_final_eq scenario_config_def success_rate_def
        truediv_def)


section \<open>The cache and the external capability\<close>

text \<open>
  Claim C1.  For a key that the cache holds, \<open>geocode_address\<close> returns the cached value
  and leaves the whole state, with its record of external calls, as it was.  A run of
  \<open>process_all_addresses\<close> from such a state never calls the external capability with
  that key and ends with the key cached as before.  The value can be the failed outcome
  \<open>(None, None)\<close>.
\<close>

theorem cached_key_needs_no_call:
  assumes "cache s key = Some v"
  shows "geocode_address env key s = (Inr v, s) \<and>
         key \<notin> set (ext_calls (new_events s (snd (process_all_addresses env s)))) \<and>
         cache (snd (process_all_addresses env s)) key = Some v"
proof -
  have "keeps key s (snd (process_all_addresses env s))"
    using assms by (rule process_all_addresses_keeps) (rule surjective_pairing)
  with assms show ?thesis
    by (simp add: geocode_address_hit keeps_def)
qed

text \<open>Claim C1 at the end of the scenario, where \<open>B\<close> is cached as failed.\<close>

theorem cached_key_needs_no_call_witness:
  "cache (snd scenario_final) (py ''B'') = Some (None, None) \<and>
   geocode_address scenario_env (py ''B'') (snd scenario_final) =
     (Inr (None, None), snd scenario_final) \<and>
   (py ''B'') \<notin> set (ext_calls (new_events (snd scenario_final)
                  (snd (process_all_addresses scenario_env (snd scenario_final)))))"
  using cached_key_needs_no_call
    [where s = "snd scenario_final" and key = "(py ''B'')" and v = "(None, None)"
       and env = scenario_env]
  by (simp add: scenario_final_eq)

text \<open>
  Claim C5.  Once the cache holds a value for a key, it holds the same value after a call
  of \<open>geocode_address\<close> for any address, after a batch, and after a whole run of
  \<open>process_all_addresses\<close>.
\<close>

theorem cache_insert_or_keep:
  assumes "cache s key = Some v"
  shows "cache (snd (geocode_address env address s)) key = Some v \<and>
         cache (snd (process_batch env refs n s)) key = Some v \<and>
         cache (snd (process_all_addresses env s)) key = Some v"
proof -
  have "keeps key s (snd (geocode_address env address s))"
    using assms by (rule geocode_address_keeps) (rule surjective_pairing)
  moreover have "keeps key s (snd (process_batch env refs n s))"
    using assms by (rule process_batch_keeps) (rule surjective_pairing)
  moreover have "keeps key s (snd (process_all_addresses env s))"
    using assms by (rule process_all_addresses_keeps) (rule surjective_pairing)
  ultimately show ?thesis using assms by (simp add: keeps_def)
qed

text \<open>Claim C5 at the end of the scenario, for the key \<open>A\<close> and a geocoder that now fails.\<close>

theorem cache_insert_or_keep_witness:
  "cache (snd scenario_final) (py ''A'') = Some (Some 1, Some 2) \<and>
   cache (snd (geocode_address failing_env (py ''A'') (snd scenario_final))) (py ''A'') =
     Some (Some 1, Some 2) \<and>
   cache (snd (geocode_address failing_env (py ''C'') (snd scenario_final))) (py ''A'') =
     Some (Some 1, Some 2) \<and>
   cache (snd (process_all_addresses failing_env (snd scenario_final))) (py ''A'') =
     Some (Some 1, Some 2)"
  using cache_insert_or_keep
    [where s = "snd scenario_final" and key = "(py ''A'')" and v = "(Some 1, Some 2)"
       and env = failing_env and address = "(py ''A'')"]
    cache_insert_or_keep
    [where s = "snd scenario_final" and key = "(py ''A'')" and v = "(Some 1, Some 2)"
       and env = failing_env and address = "(py ''C'')"]
  by (simp add: scenario_final_eq)

text \<open>
  Claim C3.  For a key that the cache does not hold, when the external call finds no
  match or raises an error that derives from \<open>Exception\<close>, \<open>geocode_address\<close> returns the
  failed outcome \<open>(None, None)\<close> and has written it to the cache under the key.  Whenever
  the external call raises nothing but such errors, \<open>geocode_address\<close> returns a value,
  and the cache then holds that value under the key.
\<close>

theorem geocode_address_failure_cached:
  "(cache s key = None \<and>
      (geocode env (trace s) key = NoMatch \<or>
       (\<exists>e. geocode env (trace s) key = Raises e \<and> is_Exception e)) \<longrightarrow>
      geocode_address env key s =
        (Inr (None, None),
         s\<lparr>trace := trace s @ [Geocode key], cache := (cache s)(key \<mapsto> (None, None))\<rparr>)) \<and>
   ((\<forall>e. geocode env (trace s) key = Raises e \<longrightarrow> is_Exception e) \<longrightarrow>
      (\<exists>r s'. geocode_address env key s = (Inr r, s') \<and> cache s' key = Some r))"
  by (auto simp: geocode_address_def cache_get_def cache_set_def Let_def
           split: option.splits ext_result.splits)

text \<open>Claim C3 for the key \<open>B\<close> before the run of the scenario: once with the geocoder that
  finds no match, once with the geocoder that raises.\<close>

theorem geocode_address_failure_cached_witness:
  "cache (snd scenario_loaded) (py ''B'') = None \<and>
   geocode scenario_env (trace (snd scenario_loaded)) (py ''B'') = NoMatch \<and>
   geocode_address scenario_env (py ''B'') (snd scenario_loaded) =
     (Inr (None, None),
      (snd scenario_loaded)\<lparr>trace := [Geocode (py ''B'')], cache := [py ''B'' \<mapsto> (None, None)]\<rparr>) \<and>
   geocode failing_env (trace (snd scenario_loaded)) (py ''B'') = Raises GeocoderError \<and>
   is_Exception GeocoderError \<and>
   geocode_address failing_env (py ''B'') (snd scenario_loaded) =
     (Inr (None, None),
      (snd scenario_loaded)\<lparr>trace := [Geocode (py ''B'')], cache := [py ''B'' \<mapsto> (None, None)]\<rparr>)"
  using geocode_address_failure_cached
    [where s = "snd scenario_loaded" and key = "(py ''B'')" and env = scenario_env]
    geocode_address_failure_cached
    [where s = "snd scenario_loaded" and key = "(py ''B'')" and env = failing_env]
  by (simp add: scenario_loaded_eq scenario_env_def failing_env_def is_Exception_def)

text \<open>
  Claim C6.  \<open>load_cache\<close> sets the cache to the empty mapping and returns it when the cache
  file is absent and when reading it raises an error that derives from \<open>Exception\<close>; with
  no other kind of error it always returns.  \<open>save_cache\<close> returns when the write fails with
  such an error, and in every case leaves the cache in memory as it was.
\<close>

theorem cache_file_failures_absorbed:
  "(\<not> path_exists env (trace s) (cache_file (config s)) \<or>
    (\<exists>e. pickle_load env (trace s) (cache_file (config s)) = Inl e \<and> is_Exception e) \<longrightarrow>
      load_cache env s = (Inr Map.empty, s\<lparr>cache := Map.empty\<rparr>)) \<and>
   ((\<forall>e. pickle_load env (trace s) (cache_file (config s)) = Inl e \<longrightarrow> is_Exception e) \<longrightarrow>
      (\<exists>c. load_cache env s = (Inr c, s\<lparr>cache := c\<rparr>))) \<and>
   ((\<forall>e. write_file env (trace s) (cache_file (config s)) (Pickle (cache s)) = Some e \<longrightarrow>
          is_Exception e) \<longrightarrow>
      (\<exists>s'. save_cache env s = (Inr (), s') \<and> cache s' = cache s)) \<and>
   cache (snd (save_cache env s)) = cache s"
  by (auto simp: load_cache_def save_cache_def write_to_def except_Exception_def Let_def
           split: sum.splits option.splits)

text \<open>Claim C6 with no cache file, with a cache file that cannot be unpickled, and with a
  cache file that cannot be written.\<close>

theorem cache_file_failures_absorbed_witness:
  "\<not> path_exists scenario_env [] (py ''geocoding_cache.pkl'') \<and>
   load_cache scenario_env (snd scenario_final) =
     (Inr Map.empty, (snd scenario_final)\<lparr>cache := Map.empty\<rparr>) \<and>
   path_exists failing_env [] (py ''geocoding_cache.pkl'') \<and>
   pickle_load failing_env [] (py ''geocoding_cache.pkl'') = Inl UnpicklingError \<and>
   is_Exception UnpicklingError \<and>
   load_cache failing_env (snd scenario_start) =
     (Inr Map.empty, (snd scenario_start)\<lparr>cache := Map.empty\<rparr>) \<and>
   write_file failing_env [] (py ''geocoding_cache.pkl'') (Pickle Map.empty) = Some OSError \<and>
   is_Exception OSError \<and>
   fst (save_cache failing_env (snd scenario_start)) = Inr () \<and>
   cache (snd (save_cache failing_env (snd scenario_start))) = Map.empty"
  using cache_file_failures_absorbed [where s = "snd scenario_final" and env = scenario_env]
    cache_file_failures_absorbed [where s = "snd scenario_start" and env = failing_env]
  by (auto simp: scenario_final_eq scenario_start_eq scenario_env_def failing_env_def
        scenario_config_def is_Exception_def)


section \<open>A run without addresses\<close>

text \<open>
  Claim C8.  With an empty address list \<open>process_all_addresses\<close> returns \<open>False\<close> and
  leaves the state as it was: no lookup, no file written.  When the input table has no
  rows, \<open>load_addresses\<close> succeeds with an empty address list and without any effect, and
  \<open>process_all_addresses\<close> then reports the failure in that way.
\<close>

theorem no_addresses_no_processing:
  "(addresses s = [] \<longrightarrow> process_all_addresses env s = (Inr False, s)) \<and>
   (read_csv env (trace s) (input_file (config s)) Utf8 = Inr [] \<and> batch_size (config s) \<noteq> 0 \<longrightarrow>
      (\<exists>s'. load_addresses env s = (Inr True, s') \<and> addresses s' = [] \<and> trace s' = trace s \<and>
            process_all_addresses env s' = (Inr False, s')))"
  by (auto simp: process_all_addresses_def load_addresses_def load_addresses_body_def
        load_csv_def floordiv_def except_Exception_def Let_def)

text \<open>Claim C8 for the new view model of the scenario, and for an input table without rows.\<close>

theorem no_addresses_no_processing_witness:
  "addresses (snd scenario_start) = [] \<and>
   process_all_addresses scenario_env (snd scenario_start) = (Inr False, snd scenario_start) \<and>
   read_csv empty_input_env [] (py ''geocoded_addresses.csv'') Utf8 = Inr [] \<and>
   batch_size scenario_config \<noteq> 0 \<and>
   (\<exists>s'. load_addresses empty_input_env (snd scenario_start) = (Inr True, s') \<and>
         addresses s' = [] \<and> trace s' = [] \<and>
         process_all_addresses empty_input_env s' = (Inr False, s'))"
  using no_addresses_no_processing [where s = "snd scenario_start" and env = scenario_env]
    no_addresses_no_processing [where s = "snd scenario_start" and env = empty_input_env]
  by (simp add: scenario_start_eq empty_input_env_def scenario_env_def scenario_config_def)

end
